theory Spec2Isabelle
  imports Main
begin

unbundle bit_operations_syntax

section \<open>The OTBN simulator's control state (sim/state.py)\<close>

subsection \<open>Enumerations\<close>

text \<open>\<^verbatim>\<open>FsmState\<close> and \<^verbatim>\<open>InitSecWipeState\<close> of state.py. The integer codes of
  the source's IntEnum play no part in the control logic and are left out.\<close>

datatype FsmState = PRE_WIPE | WIPING | IDLE | PRE_EXEC | EXEC | MEM_SEC_WIPE | LOCKED

datatype InitSecWipeState = NOT_DONE | IN_PROGRESS | DONE

text \<open>Modelled from the spec: the module \<^verbatim>\<open>constants\<close> (ErrBits, LcTx, Status) is
  missing from the sources. The spec calls the lifecycle escalation signal a tri-state
  input (Off / On / other); state.py uses \<^verbatim>\<open>LcTx.ON\<close> and \<^verbatim>\<open>LcTx.OFF\<close>.\<close>

datatype LcTx = ON | OFF | OTHER

datatype error = AssertionError

subsection \<open>The staged storage contract\<close>

text \<open>Modelled from the spec: the storage containers (GPRs, RegFile, Dmem, LoopStack,
  WSRFile, the flag groups of CSRFile, the registers of OTBNExtRegs) are missing from
  the sources. The spec gives their contract: a write is staged and visible to later
  reads of the same cycle, \<^verbatim>\<open>commit()\<close> makes the staged write permanent and clears
  the staging, \<^verbatim>\<open>abort()\<close> discards the staged write and reverts to the last
  committed value. The contents themselves are out of the spec's scope and are values
  of an arbitrary type \<open>'v\<close>, one type for all containers: no operation of state.py
  moves a value from one container to another.\<close>

record 'a staged =
  committed :: 'a
  pending :: "'a option"

definition fresh :: "'a \<Rightarrow> 'a staged" where
  "fresh v = \<lparr>committed = v, pending = None\<rparr>"

definition record_write :: "'a \<Rightarrow> 'a staged \<Rightarrow> 'a staged" where
  "record_write v r = r\<lparr>pending := Some v\<rparr>"

definition observe :: "'a staged \<Rightarrow> 'a" where
  "observe r = (case pending r of None \<Rightarrow> committed r | Some v \<Rightarrow> v)"

definition commit_staged :: "'a staged \<Rightarrow> 'a staged" where
  "commit_staged r = \<lparr>committed = observe r, pending = None\<rparr>"

definition abort_staged :: "'a staged \<Rightarrow> 'a staged" where
  "abort_staged r = r\<lparr>pending := None\<rparr>"

text \<open>Modelled from the spec: OTBNExtRegs is missing from the sources. Its field
  \<^verbatim>\<open>regs\<close> maps a register name to a staged register; \<^verbatim>\<open>write(name, value, True)\<close>
  stages the value, \<^verbatim>\<open>set_bits(name, bits)\<close> stages the value a read of the register
  returns in this cycle with the bits set, \<^verbatim>\<open>regs[name].commit()\<close> commits one
  register, and \<^verbatim>\<open>commit\<close>/\<^verbatim>\<open>abort\<close> act on every register. Every name state.py
  uses is taken to be a register of the file.\<close>

type_synonym OTBNExtRegs = "string \<Rightarrow> int staged"

definition ext_write :: "string \<Rightarrow> int \<Rightarrow> OTBNExtRegs \<Rightarrow> OTBNExtRegs" where
  "ext_write name v regs = regs(name := record_write v (regs name))"

definition ext_set_bits :: "string \<Rightarrow> int \<Rightarrow> OTBNExtRegs \<Rightarrow> OTBNExtRegs" where
  "ext_set_bits name b regs = regs(name := record_write (observe (regs name) OR b) (regs name))"

definition ext_reg_commit :: "string \<Rightarrow> OTBNExtRegs \<Rightarrow> OTBNExtRegs" where
  "ext_reg_commit name regs = regs(name := commit_staged (regs name))"

definition ext_commit :: "OTBNExtRegs \<Rightarrow> OTBNExtRegs" where
  "ext_commit regs = (\<lambda>name. commit_staged (regs name))"

definition ext_abort :: "OTBNExtRegs \<Rightarrow> OTBNExtRegs" where
  "ext_abort regs = (\<lambda>name. abort_staged (regs name))"

text \<open>Modelled from the spec: WSRFile and CSRFile are missing from the sources.
  state.py reaches the URND register of the WSR file on its own
  (\<^verbatim>\<open>wsrs.URND.set_seed\<close>, \<^verbatim>\<open>wsrs.URND.commit\<close>) and the flag groups of the CSR file
  (\<^verbatim>\<open>csrs.flags\<close>). \<^verbatim>\<open>wsrs.commit()\<close> and \<^verbatim>\<open>wsrs.abort()\<close> act on every special
  register, URND included (commit() pulls URND out "because we also want to commit
  this in some idle-ish states"). The WSR file keeps a reference to the external
  registers for its RND request path; committing or aborting it writes no external
  register.\<close>

record 'v WSRFile =
  URND :: "int list staged"
  others :: "'v staged"

record 'v CSRFile =
  flags :: "'v staged"

definition wsrs_commit_all :: "'v WSRFile \<Rightarrow> 'v WSRFile" where
  "wsrs_commit_all w = \<lparr>URND = commit_staged (URND w), others = commit_staged (others w)\<rparr>"

definition wsrs_abort_all :: "'v WSRFile \<Rightarrow> 'v WSRFile" where
  "wsrs_abort_all w = \<lparr>URND = abort_staged (URND w), others = abort_staged (others w)\<rparr>"

subsection \<open>Calls on the collaborators\<close>

text \<open>The state-changing method calls that state.py makes on its collaborator
  objects, recorded in program order in the field \<open>calls\<close> of the state. The entropy
  clients (EdnClient, and the RND client inside OTBNExtRegs) are missing from the
  sources and carry no other state in this model: what is known of them is the
  sequence of calls they received.\<close>

datatype resource = GPRS | DMEM | LOOP_STACK | EXT_REGS | WSRS | URND_WSR | FLAGS | WDRS

datatype call =
    Commit resource
  | Abort resource
  | Write string int
  | SetBits string int
  | RegCommit string
  | IncrementInsnCnt
  | ExtRegsStep
  | RndPoison
  | RndForget
  | UrndRequest
  | UrndStep
  | UrndCdcComplete
  | SetSeed "int list"
  | NewCSRFile
  | NewLoopStack
  | WsrsOnStart
  | EmptyCallStack
  | GprsPostInsn
  | LoopStackStep int

subsection \<open>The state\<close>

record 'v OTBNState =
  gprs :: "'v staged"
  wdrs :: "'v staged"
  ext_regs :: OTBNExtRegs
  wsrs :: "'v WSRFile"
  csrs :: "'v CSRFile"
  pc :: int
  pc_next_override :: "int option"
  imem_size :: int
  dmem :: "'v staged"
  fsm_state :: FsmState
  next_fsm_state :: FsmState
  init_sec_wipe_state :: InitSecWipeState
  wipe_rounds_to_do :: int
  wipe_rounds_done :: int
  loop_stack :: "'v staged"
  err_bits :: int
  pending_halt :: bool
  time_to_imem_invalidation :: "int option"
  invalidated_imem :: bool
  wipe_cycles :: int
  lock_after_wipe :: bool
  injected_err_bits :: int
  lock_immediately :: bool
  time_to_insn_cnt_zero :: "int option"
  software_errs_fatal :: bool
  cycles_in_this_state :: int
  rma_req :: LcTx
  has_state_to_wipe :: bool
  delayed_lock :: bool
  edn_seen_running :: bool
  calls :: "call list"

text \<open>Modelled from the spec: what state.py takes from the missing modules. The
  constants of \<^verbatim>\<open>constants\<close> (status codes, the BAD_INSN_ADDR error bit), the memory
  layout, the freshly constructed collaborators, and the collaborator methods whose
  effect the spec leaves open, are parameters of the model.\<close>

record 'v collab =
  Status_BUSY_EXECUTE :: int
  Status_LOCKED :: int
  BAD_INSN_ADDR :: int
  imem_size_bytes :: int
  new_ext_regs :: "string \<Rightarrow> int"
  new_GPRs :: 'v
  new_RegFile :: 'v
  new_Dmem :: 'v
  new_LoopStack :: 'v
  new_flags :: 'v
  new_WSRs :: 'v
  new_URND :: "int list"
  ext_regs_step :: "OTBNExtRegs \<Rightarrow> OTBNExtRegs"
  wsrs_on_start :: "'v WSRFile \<Rightarrow> 'v WSRFile"
  gprs_empty_call_stack :: "'v staged \<Rightarrow> 'v staged"
  gprs_post_insn :: "'v staged \<Rightarrow> 'v staged"
  gprs_err_bits :: "'v staged \<Rightarrow> int"
  loop_stack_step :: "int \<Rightarrow> (int \<rightharpoonup> int) \<Rightarrow> 'v staged \<Rightarrow> int option \<times> 'v staged"
  loop_stack_err_bits :: "'v staged \<Rightarrow> int"

definition WIPE_CYCLES :: int where
  "WIPE_CYCLES = 68"

text \<open>The definitions below write \<open>f_update g s\<close> for the state \<open>s\<close> whose field
  \<open>f\<close> has become \<open>g (f s)\<close>: a method call on the object held in the field.\<close>

definition called :: "call \<Rightarrow> 'v OTBNState \<Rightarrow> 'v OTBNState" where
  "called c s = calls_update (\<lambda>cs. cs @ [c]) s"

text \<open>\<^verbatim>\<open>OTBNState.__init__\<close>\<close>

definition init :: "'v collab \<Rightarrow> 'v OTBNState" where
  "init E =
     \<lparr>gprs = fresh (new_GPRs E),
      wdrs = fresh (new_RegFile E),
      ext_regs = (\<lambda>name. fresh (new_ext_regs E name)),
      wsrs = \<lparr>URND = fresh (new_URND E), others = fresh (new_WSRs E)\<rparr>,
      csrs = \<lparr>flags = fresh (new_flags E)\<rparr>,
      pc = 0,
      pc_next_override = None,
      imem_size = imem_size_bytes E,
      dmem = fresh (new_Dmem E),
      fsm_state = PRE_WIPE,
      next_fsm_state = PRE_WIPE,
      init_sec_wipe_state = NOT_DONE,
      wipe_rounds_to_do = 2,
      wipe_rounds_done = 0,
      loop_stack = fresh (new_LoopStack E),
      err_bits = 0,
      pending_halt = False,
      time_to_imem_invalidation = None,
      invalidated_imem = False,
      wipe_cycles = - 1,
      lock_after_wipe = False,
      injected_err_bits = 0,
      lock_immediately = False,
      time_to_insn_cnt_zero = None,
      software_errs_fatal = False,
      cycles_in_this_state = 0,
      rma_req = OFF,
      has_state_to_wipe = False,
      delayed_lock = False,
      edn_seen_running = False,
      calls = []\<rparr>"

subsection \<open>Program counter\<close>

definition get_next_pc :: "'v OTBNState \<Rightarrow> int" where
  "get_next_pc s = (case pc_next_override s of Some p \<Rightarrow> p | None \<Rightarrow> pc s + 4)"

text \<open>\<^verbatim>\<open>is_pc_valid\<close>: the assertion \<^verbatim>\<open>0 <= pc\<close> is the error branch.\<close>

definition is_pc_valid :: "'v OTBNState \<Rightarrow> int \<Rightarrow> error + bool" where
  "is_pc_valid s p =
     (if \<not> 0 \<le> p then Inl AssertionError
      else if p AND 3 \<noteq> 0 then Inr False
      else if p \<ge> imem_size s then Inr False
      else Inr True)"

definition set_next_pc :: "int \<Rightarrow> 'v OTBNState \<Rightarrow> error + 'v OTBNState" where
  "set_next_pc next_pc s =
     (case is_pc_valid s next_pc of
        Inl e \<Rightarrow> Inl e
      | Inr ok \<Rightarrow> if ok then Inr (s\<lparr>pc_next_override := Some next_pc\<rparr>) else Inl AssertionError)"

subsection \<open>Fault injection and the per-cycle calls\<close>

definition stop_at_end_of_cycle :: "int \<Rightarrow> 'v OTBNState \<Rightarrow> 'v OTBNState" where
  "stop_at_end_of_cycle eb s = (err_bits_update (\<lambda>e. e OR eb) s)\<lparr>pending_halt := True\<rparr>"

definition take_injected_err_bits :: "'v OTBNState \<Rightarrow> 'v OTBNState" where
  "take_injected_err_bits s =
     (if injected_err_bits s \<noteq> 0
      then (stop_at_end_of_cycle (injected_err_bits s) s)\<lparr>injected_err_bits := 0\<rparr>
      else s)"

definition step :: "'v collab \<Rightarrow> bool \<Rightarrow> 'v OTBNState \<Rightarrow> 'v OTBNState" where
  "step E handle_injected_error s =
     (let s1 = (if handle_injected_error then take_injected_err_bits s else s);
          s2 = called ExtRegsStep (ext_regs_update (ext_regs_step E) s1)
      in called UrndStep s2)"

definition invalidate_imem :: "'v OTBNState \<Rightarrow> 'v OTBNState" where
  "invalidate_imem s = s\<lparr>time_to_imem_invalidation := Some 2\<rparr>"

definition clear_imem_invalidation :: "'v OTBNState \<Rightarrow> 'v OTBNState" where
  "clear_imem_invalidation s = s\<lparr>time_to_imem_invalidation := None, invalidated_imem := False\<rparr>"

text \<open>The first statement of \<^verbatim>\<open>commit\<close>: the countdown to the IMEM invalidation.\<close>

definition imem_invalidation_tick :: "'v OTBNState \<Rightarrow> 'v OTBNState" where
  "imem_invalidation_tick s =
     (case time_to_imem_invalidation s of
        None \<Rightarrow> s
      | Some t \<Rightarrow>
          if t - 1 = 0
          then s\<lparr>invalidated_imem := True, time_to_imem_invalidation := None\<rparr>
          else s\<lparr>time_to_imem_invalidation := Some (t - 1)\<rparr>)"

text \<open>The second group of \<^verbatim>\<open>commit\<close>: latch the next FSM state and count the
  cycles spent in it. The result carries the state before the latch.\<close>

definition latch_fsm_state :: "'v OTBNState \<Rightarrow> 'v OTBNState" where
  "latch_fsm_state s =
     (let old_state = fsm_state s;
          s1 = s\<lparr>fsm_state := next_fsm_state s\<rparr>
      in if fsm_state s1 = old_state
         then s1\<lparr>cycles_in_this_state := cycles_in_this_state s1 + 1\<rparr>
         else s1\<lparr>cycles_in_this_state := 0\<rparr>)"

definition commit_ext_regs :: "'v OTBNState \<Rightarrow> 'v OTBNState" where
  "commit_ext_regs s = called (Commit EXT_REGS) (ext_regs_update ext_commit s)"

definition commit_URND :: "'v OTBNState \<Rightarrow> 'v OTBNState" where
  "commit_URND s =
     called (Commit URND_WSR) (wsrs_update (URND_update commit_staged) s)"

definition commit_gprs :: "'v OTBNState \<Rightarrow> 'v OTBNState" where
  "commit_gprs s = called (Commit GPRS) (gprs_update commit_staged s)"

definition commit_dmem :: "'v OTBNState \<Rightarrow> 'v OTBNState" where
  "commit_dmem s = called (Commit DMEM) (dmem_update commit_staged s)"

definition commit_loop_stack :: "'v OTBNState \<Rightarrow> 'v OTBNState" where
  "commit_loop_stack s = called (Commit LOOP_STACK) (loop_stack_update commit_staged s)"

definition commit_wsrs :: "'v OTBNState \<Rightarrow> 'v OTBNState" where
  "commit_wsrs s = called (Commit WSRS) (wsrs_update wsrs_commit_all s)"

definition commit_flags :: "'v OTBNState \<Rightarrow> 'v OTBNState" where
  "commit_flags s =
     called (Commit FLAGS) (csrs_update (flags_update commit_staged) s)"

definition commit_wdrs :: "'v OTBNState \<Rightarrow> 'v OTBNState" where
  "commit_wdrs s = called (Commit WDRS) (wdrs_update commit_staged s)"

text \<open>\<^verbatim>\<open>commit\<close>\<close>

definition commit :: "bool \<Rightarrow> 'v OTBNState \<Rightarrow> 'v OTBNState" where
  "commit sim_stalled s =
     (let s1 = imem_invalidation_tick s;
          old_state = fsm_state s1;
          s2 = latch_fsm_state s1;
          s3 = commit_ext_regs s2;
          s4 = commit_URND s3
      in if old_state \<notin> {EXEC, WIPING} then s4
         else
           let s5 = commit_gprs s4;
               s6 = commit_dmem s5;
               s7 = commit_loop_stack s6;
               s8 = commit_wsrs s7;
               s9 = commit_flags s8;
               s10 = commit_wdrs s9
           in if \<not> sim_stalled
              then s10\<lparr>pc := get_next_pc s10, pc_next_override := None\<rparr>
              else s10)"

subsection \<open>Calls on the external registers\<close>

definition ext_regs_write :: "string \<Rightarrow> int \<Rightarrow> 'v OTBNState \<Rightarrow> 'v OTBNState" where
  "ext_regs_write name v s =
     called (Write name v) (ext_regs_update (ext_write name v) s)"

definition ext_regs_set_bits :: "string \<Rightarrow> int \<Rightarrow> 'v OTBNState \<Rightarrow> 'v OTBNState" where
  "ext_regs_set_bits name b s =
     called (SetBits name b) (ext_regs_update (ext_set_bits name b) s)"

definition ext_regs_reg_commit :: "string \<Rightarrow> 'v OTBNState \<Rightarrow> 'v OTBNState" where
  "ext_regs_reg_commit name s =
     called (RegCommit name) (ext_regs_update (ext_reg_commit name) s)"

text \<open>Modelled from the spec: \<^verbatim>\<open>increment_insn_cnt\<close> of the missing OTBNExtRegs
  "increments the instruction counter", a staged write to INSN_CNT.\<close>

definition increment_insn_cnt :: "'v OTBNState \<Rightarrow> 'v OTBNState" where
  "increment_insn_cnt s =
     called IncrementInsnCnt
       (ext_regs_update (\<lambda>regs. ext_write ''INSN_CNT'' (observe (regs ''INSN_CNT'') + 1) regs) s)"

subsection \<open>Abort, start and stop\<close>

text \<open>\<^verbatim>\<open>_abort\<close>\<close>

definition abort_state :: "'v OTBNState \<Rightarrow> 'v OTBNState" where
  "abort_state s =
     (let s1 = called (Abort GPRS) (gprs_update abort_staged s);
          s2 = s1\<lparr>pc_next_override := None\<rparr>;
          s3 = called (Abort DMEM) (dmem_update abort_staged s2);
          s4 = called (Abort LOOP_STACK) (loop_stack_update abort_staged s3);
          s5 = called (Abort EXT_REGS) (ext_regs_update ext_abort s4);
          s6 = called (Abort WSRS) (wsrs_update wsrs_abort_all s5);
          s7 = called (Abort FLAGS) (csrs_update (flags_update abort_staged) s6)
      in called (Abort WDRS) (wdrs_update abort_staged s7))"

text \<open>\<^verbatim>\<open>start\<close>\<close>

definition start :: "'v collab \<Rightarrow> 'v OTBNState \<Rightarrow> 'v OTBNState" where
  "start E s =
     (let s1 = ext_regs_write ''STATUS'' (Status_BUSY_EXECUTE E) s;
          s2 = s1\<lparr>pending_halt := False, err_bits := 0,
                  fsm_state := PRE_EXEC, next_fsm_state := PRE_EXEC,
                  has_state_to_wipe := True, pc := 0\<rparr>;
          s3 = called NewCSRFile (s2\<lparr>csrs := \<lparr>flags = fresh (new_flags E)\<rparr>\<rparr>);
          s4 = called WsrsOnStart (wsrs_update (wsrs_on_start E) s3);
          s5 = called NewLoopStack (s4\<lparr>loop_stack := fresh (new_LoopStack E)\<rparr>);
          s6 = called EmptyCallStack (gprs_update (gprs_empty_call_stack E) s5);
          s7 = called RndPoison s6
      in called UrndRequest s7)"

text \<open>\<^verbatim>\<open>set_fsm_state\<close>\<close>

definition set_fsm_state :: "FsmState \<Rightarrow> 'v OTBNState \<Rightarrow> 'v OTBNState" where
  "set_fsm_state new_state s =
     (let wiping_next = (new_state = WIPING);
          s1 = (if wiping_next then s\<lparr>wipe_cycles := WIPE_CYCLES\<rparr> else s)
      in s1\<lparr>next_fsm_state := new_state\<rparr>)"

text \<open>The expression that \<^verbatim>\<open>stop\<close> binds to \<^verbatim>\<open>should_lock\<close>. Python's \<^verbatim>\<open>>>\<close> on
  an unbounded integer is the arithmetic shift \<open>drop_bit\<close>.\<close>

definition should_lock :: "'v OTBNState \<Rightarrow> bool" where
  "should_lock s =
     (drop_bit 16 (err_bits s) \<noteq> 0 \<or>
      drop_bit 10 (err_bits s) AND 1 \<noteq> 0 \<or>
      (err_bits s \<noteq> 0 \<and> software_errs_fatal s) \<or>
      rma_req s = ON)"

text \<open>The branch on \<^verbatim>\<open>lock_immediately\<close> that ends \<^verbatim>\<open>stop\<close>; \<open>sl\<close> is the value of
  \<^verbatim>\<open>should_lock\<close>, and a failed \<^verbatim>\<open>assert should_lock\<close> is the error result.\<close>

definition stop_branch :: "'v collab \<Rightarrow> bool \<Rightarrow> 'v OTBNState \<Rightarrow> error + 'v OTBNState" where
  "stop_branch E sl s =
     (if lock_immediately s then
        (if \<not> sl then Inl AssertionError
         else Inr (ext_regs_write ''STATUS'' (Status_LOCKED E) (set_fsm_state LOCKED s)))
      else if fsm_state s = EXEC then
        (let s1 = ext_regs_write ''STOP_PC'' (pc s) s;
             s2 = ext_regs_write ''WIPE_START'' 1 s1;
             s3 = ext_regs_reg_commit ''WIPE_START'' s2;
             s4 = set_fsm_state PRE_WIPE s3
         in Inr (s4\<lparr>lock_after_wipe := sl, wipe_rounds_done := 0\<rparr>))
      else if fsm_state s \<in> {PRE_WIPE, WIPING} then
        (if \<not> sl then Inl AssertionError
         else Inr (s\<lparr>lock_after_wipe := True\<rparr>))
      else if init_sec_wipe_state s \<in> {IN_PROGRESS} then
        (if \<not> sl then Inl AssertionError
         else Inr (s\<lparr>pending_halt := True\<rparr>))
      else if init_sec_wipe_state s = DONE then
        (if \<not> sl then Inl AssertionError
         else Inr (ext_regs_write ''STATUS'' (Status_LOCKED E) (s\<lparr>next_fsm_state := LOCKED\<rparr>)))
      else Inr s)"

text \<open>\<^verbatim>\<open>stop\<close>\<close>

definition stop :: "'v collab \<Rightarrow> 'v OTBNState \<Rightarrow> error + 'v OTBNState" where
  "stop E s =
     (let insn_failed = (err_bits s \<noteq> 0 \<and> fsm_state s = EXEC);
          s1 = (if insn_failed then abort_state s else s);
          s2 = ext_regs_set_bits ''INTR_STATE'' (push_bit 0 1) s1;
          sl = should_lock s2;
          s3 = ext_regs_write ''ERR_BITS'' (err_bits s2) s2;
          s4 = s3\<lparr>pending_halt := False\<rparr>
      in case stop_branch E sl s4 of
           Inl e \<Rightarrow> Inl e
         | Inr s5 \<Rightarrow> Inr (called RndForget s5))"

subsection \<open>Instruction bracketing\<close>

text \<open>\<^verbatim>\<open>loop_step\<close>: the loop stack's own \<^verbatim>\<open>step\<close> is a collaborator method, which
  returns the PC to jump back to, if any.\<close>

definition loop_step :: "'v collab \<Rightarrow> (int \<rightharpoonup> int) \<Rightarrow> 'v OTBNState \<Rightarrow> error + 'v OTBNState" where
  "loop_step E loop_warps s =
     (case loop_stack_step E (pc s) loop_warps (loop_stack s) of
        (back_pc, ls) \<Rightarrow>
          (let s1 = called (LoopStackStep (pc s)) (s\<lparr>loop_stack := ls\<rparr>)
           in case back_pc of None \<Rightarrow> Inr s1 | Some b \<Rightarrow> set_next_pc b s1))"

text \<open>The part of \<^verbatim>\<open>post_insn\<close> after \<^verbatim>\<open>loop_step\<close>.\<close>

definition post_insn_checks :: "'v collab \<Rightarrow> 'v OTBNState \<Rightarrow> error + 'v OTBNState" where
  "post_insn_checks E s =
     (let s1 = called GprsPostInsn (gprs_update (gprs_post_insn E) s);
          s2 = s1\<lparr>err_bits := err_bits s1 OR
                     (gprs_err_bits E (gprs s1) OR loop_stack_err_bits E (loop_stack s1))\<rparr>;
          s3 = (if err_bits s2 \<noteq> 0 then s2\<lparr>pending_halt := True\<rparr> else s2)
      in case is_pc_valid s3 (get_next_pc s3) of
           Inl e \<Rightarrow> Inl e
         | Inr ok \<Rightarrow>
             if \<not> ok \<and> \<not> pending_halt s3
             then Inr (s3\<lparr>err_bits := err_bits s3 OR BAD_INSN_ADDR E, pending_halt := True\<rparr>)
             else Inr s3)"

text \<open>\<^verbatim>\<open>post_insn\<close>\<close>

definition post_insn :: "'v collab \<Rightarrow> (int \<rightharpoonup> int) \<Rightarrow> 'v OTBNState \<Rightarrow> error + 'v OTBNState" where
  "post_insn E loop_warps s =
     (case loop_step E loop_warps (increment_insn_cnt s) of
        Inl e \<Rightarrow> Inl e
      | Inr s1 \<Rightarrow> post_insn_checks E s1)"

subsection \<open>URND completion\<close>

text \<open>\<^verbatim>\<open>urnd_completed\<close>. The tuple that \<^verbatim>\<open>cdc_complete()\<close> of the missing EdnClient
  returns is the parameter \<open>cdc\<close>. Modelled from the spec: \<^verbatim>\<open>set_seed\<close> of the missing
  URND register stages the four words.\<close>

definition urnd_completed ::
  "int option \<times> bool \<times> bool \<times> bool \<Rightarrow> 'v OTBNState \<Rightarrow> error + 'v OTBNState" where
  "urnd_completed cdc s =
     (case cdc of
        (w256, retry, _, _) \<Rightarrow>
          (let s1 = called UrndCdcComplete s
           in case w256 of
                None \<Rightarrow> Inl AssertionError
              | Some w \<Rightarrow>
                  if retry then Inl AssertionError
                  else
                    (let w64s = map (\<lambda>i. drop_bit (64 * i) w AND (push_bit 64 1 - 1)) [0..<4];
                         s2 = s1\<lparr>edn_seen_running := True\<rparr>
                     in Inr (called (SetSeed w64s)
                          (wsrs_update (URND_update (record_write w64s)) s2)))))"

subsection \<open>Driving the model\<close>

text \<open>A sequence of the two per-cycle driver calls, applied left to right.\<close>

datatype driver_call = Step bool | Commit_call bool

fun drive :: "'v collab \<Rightarrow> driver_call list \<Rightarrow> 'v OTBNState \<Rightarrow> 'v OTBNState" where
  "drive E [] s = s"
| "drive E (Step b # cs) s = drive E cs (step E b s)"
| "drive E (Commit_call b # cs) s = drive E cs (commit b s)"

subsection \<open>A concrete configuration\<close>

text \<open>Collaborators over natural-number contents whose open methods do nothing, a
  4 KiB instruction memory, and status and error codes chosen for the evaluation of
  the theorems at concrete states.\<close>

definition example_collab :: "nat collab" where
  "example_collab =
     \<lparr>Status_BUSY_EXECUTE = 1, Status_LOCKED = 255, BAD_INSN_ADDR = 2, imem_size_bytes = 4096,
      new_ext_regs = (\<lambda>name. 0), new_GPRs = 0, new_RegFile = 0, new_Dmem = 0,
      new_LoopStack = 0, new_flags = 0, new_WSRs = 0, new_URND = [0, 0, 0, 0],
      ext_regs_step = (\<lambda>regs. regs), wsrs_on_start = (\<lambda>w. w),
      gprs_empty_call_stack = (\<lambda>g. g), gprs_post_insn = (\<lambda>g. g),
      gprs_err_bits = (\<lambda>g. 0),
      loop_stack_step = (\<lambda>p warps l. (None, l)), loop_stack_err_bits = (\<lambda>l. 0)\<rparr>"

section \<open>Basic facts\<close>

lemmas commit_parts = commit_ext_regs_def commit_URND_def commit_gprs_def commit_dmem_def
  commit_loop_stack_def commit_wsrs_def commit_flags_def commit_wdrs_def called_def

lemmas ext_calls = ext_regs_write_def ext_regs_set_bits_def ext_regs_reg_commit_def called_def

lemmas ext_ops = ext_write_def ext_set_bits_def ext_reg_commit_def ext_commit_def ext_abort_def

lemmas staged_ops = fresh_def record_write_def observe_def commit_staged_def abort_staged_def

lemma commit_staged_idem: "commit_staged (commit_staged r) = commit_staged r"
  by (simp add: commit_staged_def observe_def)

lemma tick_frame:
  "fsm_state (imem_invalidation_tick s) = fsm_state s"
  "next_fsm_state (imem_invalidation_tick s) = next_fsm_state s"
  "gprs (imem_invalidation_tick s) = gprs s"
  "wdrs (imem_invalidation_tick s) = wdrs s"
  "dmem (imem_invalidation_tick s) = dmem s"
  "loop_stack (imem_invalidation_tick s) = loop_stack s"
  "wsrs (imem_invalidation_tick s) = wsrs s"
  "csrs (imem_invalidation_tick s) = csrs s"
  "ext_regs (imem_invalidation_tick s) = ext_regs s"
  "pc (imem_invalidation_tick s) = pc s"
  "pc_next_override (imem_invalidation_tick s) = pc_next_override s"
  "calls (imem_invalidation_tick s) = calls s"
  by (simp_all add: imem_invalidation_tick_def split: option.splits)

lemma latch_frame:
  "gprs (latch_fsm_state s) = gprs s"
  "wdrs (latch_fsm_state s) = wdrs s"
  "dmem (latch_fsm_state s) = dmem s"
  "loop_stack (latch_fsm_state s) = loop_stack s"
  "wsrs (latch_fsm_state s) = wsrs s"
  "csrs (latch_fsm_state s) = csrs s"
  "ext_regs (latch_fsm_state s) = ext_regs s"
  "pc (latch_fsm_state s) = pc s"
  "pc_next_override (latch_fsm_state s) = pc_next_override s"
  "calls (latch_fsm_state s) = calls s"
  by (simp_all add: latch_fsm_state_def Let_def)

section \<open>The per-cycle commit\<close>

lemma commit_always:
  "ext_regs (commit st s) = ext_commit (ext_regs s)"
  "URND (wsrs (commit st s)) = commit_staged (URND (wsrs s))"
  by (simp_all add: commit_def Let_def commit_parts tick_frame latch_frame wsrs_commit_all_def
      commit_staged_idem)

lemma commit_active:
  assumes "fsm_state s \<in> {EXEC, WIPING}"
  shows "gprs (commit st s) = commit_staged (gprs s)"
    "dmem (commit st s) = commit_staged (dmem s)"
    "loop_stack (commit st s) = commit_staged (loop_stack s)"
    "others (wsrs (commit st s)) = commit_staged (others (wsrs s))"
    "flags (csrs (commit st s)) = commit_staged (flags (csrs s))"
    "wdrs (commit st s) = commit_staged (wdrs s)"
    "calls (commit st s) = calls s @ [Commit EXT_REGS, Commit URND_WSR, Commit GPRS, Commit DMEM,
        Commit LOOP_STACK, Commit WSRS, Commit FLAGS, Commit WDRS]"
    "pc (commit st s) = (if st then pc s else get_next_pc s)"
    "pc_next_override (commit st s) = (if st then pc_next_override s else None)"
  using assms
  by (auto simp add: commit_def Let_def commit_parts tick_frame latch_frame wsrs_commit_all_def
      get_next_pc_def split: option.splits)

lemma commit_idle:
  assumes "fsm_state s \<notin> {EXEC, WIPING}"
  shows "gprs (commit st s) = gprs s"
    "dmem (commit st s) = dmem s"
    "loop_stack (commit st s) = loop_stack s"
    "others (wsrs (commit st s)) = others (wsrs s)"
    "csrs (commit st s) = csrs s"
    "wdrs (commit st s) = wdrs s"
    "calls (commit st s) = calls s @ [Commit EXT_REGS, Commit URND_WSR]"
    "pc (commit st s) = pc s"
    "pc_next_override (commit st s) = pc_next_override s"
  using assms
  by (simp_all add: commit_def Let_def commit_parts tick_frame latch_frame)

text \<open>C2: \<open>commit\<close> always commits the external registers and the URND register. When
  the FSM state at the start of the call is EXEC or WIPING it also commits, in this
  order, the general registers, the data memory, the loop stack, the special registers,
  the flags and the wide registers, and, unless the cycle stalled, moves the PC to the
  next PC and clears the override. In every other state those resources, the PC and
  the override are left as they were, stalled or not.\<close>

theorem commit_conditional:
  "ext_regs (commit st s) = ext_commit (ext_regs s) \<and>
   URND (wsrs (commit st s)) = commit_staged (URND (wsrs s)) \<and>
   (if fsm_state s \<in> {EXEC, WIPING}
    then gprs (commit st s) = commit_staged (gprs s) \<and>
         dmem (commit st s) = commit_staged (dmem s) \<and>
         loop_stack (commit st s) = commit_staged (loop_stack s) \<and>
         others (wsrs (commit st s)) = commit_staged (others (wsrs s)) \<and>
         flags (csrs (commit st s)) = commit_staged (flags (csrs s)) \<and>
         wdrs (commit st s) = commit_staged (wdrs s) \<and>
         calls (commit st s) =
           calls s @ [Commit EXT_REGS, Commit URND_WSR, Commit GPRS, Commit DMEM,
             Commit LOOP_STACK, Commit WSRS, Commit FLAGS, Commit WDRS] \<and>
         pc (commit st s) = (if st then pc s else get_next_pc s) \<and>
         pc_next_override (commit st s) = (if st then pc_next_override s else None)
    else gprs (commit st s) = gprs s \<and>
         dmem (commit st s) = dmem s \<and>
         loop_stack (commit st s) = loop_stack s \<and>
         others (wsrs (commit st s)) = others (wsrs s) \<and>
         csrs (commit st s) = csrs s \<and>
         wdrs (commit st s) = wdrs s \<and>
         calls (commit st s) = calls s @ [Commit EXT_REGS, Commit URND_WSR] \<and>
         pc (commit st s) = pc s \<and>
         pc_next_override (commit st s) = pc_next_override s)"
proof (cases "fsm_state s \<in> {EXEC, WIPING}")
  case True
  then show ?thesis
    using commit_always [of st s] commit_active [OF True, of st] by simp
next
  case False
  then show ?thesis
    using commit_always [of st s] commit_idle [OF False, of st] by simp
qed

theorem commit_conditional_witness:
  "gprs (commit False ((init example_collab)
      \<lparr>fsm_state := EXEC, gprs := \<lparr>committed = 1, pending = Some 5\<rparr>,
        pc_next_override := Some 16\<rparr>)) = \<lparr>committed = 5, pending = None\<rparr> \<and>
   pc (commit False ((init example_collab)
      \<lparr>fsm_state := EXEC, gprs := \<lparr>committed = 1, pending = Some 5\<rparr>,
        pc_next_override := Some 16\<rparr>)) = 16 \<and>
   pc (commit True ((init example_collab)
      \<lparr>fsm_state := EXEC, gprs := \<lparr>committed = 1, pending = Some 5\<rparr>,
        pc_next_override := Some 16\<rparr>)) = 0 \<and>
   gprs (commit False ((init example_collab)
      \<lparr>gprs := \<lparr>committed = 1, pending = Some 5\<rparr>, pc_next_override := Some 16\<rparr>)) =
     \<lparr>committed = 1, pending = Some 5\<rparr> \<and>
   pc (commit False ((init example_collab)
      \<lparr>gprs := \<lparr>committed = 1, pending = Some 5\<rparr>, pc_next_override := Some 16\<rparr>)) = 0"
  using
    commit_conditional [of False "(init example_collab)
      \<lparr>fsm_state := EXEC, gprs := \<lparr>committed = 1, pending = Some 5\<rparr>,
        pc_next_override := Some 16\<rparr>"]
    commit_conditional [of True "(init example_collab)
      \<lparr>fsm_state := EXEC, gprs := \<lparr>committed = 1, pending = Some 5\<rparr>,
        pc_next_override := Some 16\<rparr>"]
    commit_conditional [of False "(init example_collab)
      \<lparr>gprs := \<lparr>committed = 1, pending = Some 5\<rparr>, pc_next_override := Some 16\<rparr>"]
  by (simp add: init_def commit_staged_def observe_def get_next_pc_def)

section \<open>IMEM invalidation timing\<close>

lemma commit_imem:
  "time_to_imem_invalidation (commit b s) = time_to_imem_invalidation (imem_invalidation_tick s)"
  "invalidated_imem (commit b s) = invalidated_imem (imem_invalidation_tick s)"
  by (simp_all add: commit_def latch_fsm_state_def commit_parts Let_def)

text \<open>C8: from a state with no pending IMEM invalidation, \<open>invalidate_imem\<close> arms the
  countdown at 2; the first \<open>commit\<close> takes it to 1 and leaves \<open>invalidated_imem\<close> as
  it was; the second \<open>commit\<close> sets \<open>invalidated_imem\<close> and clears the countdown.\<close>

theorem imem_invalidation_after_two_commits:
  assumes "time_to_imem_invalidation s = None"
  shows "time_to_imem_invalidation (invalidate_imem s) = Some 2 \<and>
     time_to_imem_invalidation (commit a (invalidate_imem s)) = Some 1 \<and>
     invalidated_imem (commit a (invalidate_imem s)) = invalidated_imem s \<and>
     time_to_imem_invalidation (commit b (commit a (invalidate_imem s))) = None \<and>
     invalidated_imem (commit b (commit a (invalidate_imem s))) = True"
proof -
  have 0: "time_to_imem_invalidation (invalidate_imem s) = Some 2"
    by (simp add: invalidate_imem_def)
  have 1: "time_to_imem_invalidation (commit a (invalidate_imem s)) = Some 1"
    by (simp add: commit_imem imem_invalidation_tick_def invalidate_imem_def)
  have 2: "invalidated_imem (commit a (invalidate_imem s)) = invalidated_imem s"
    by (simp add: commit_imem imem_invalidation_tick_def invalidate_imem_def)
  have 3: "time_to_imem_invalidation (commit b (commit a (invalidate_imem s))) = None"
    by (simp add: commit_imem [of b] imem_invalidation_tick_def 1)
  have 4: "invalidated_imem (commit b (commit a (invalidate_imem s))) = True"
    by (simp add: commit_imem [of b] imem_invalidation_tick_def 1)
  from 0 1 2 3 4 show ?thesis by simp
qed

theorem imem_invalidation_after_two_commits_witness:
  "time_to_imem_invalidation (init example_collab) = None \<and>
   invalidated_imem (commit False (invalidate_imem (init example_collab))) = False \<and>
   invalidated_imem (commit True (commit False (invalidate_imem (init example_collab)))) = True \<and>
   time_to_imem_invalidation (commit True (commit False (invalidate_imem (init example_collab))))
     = None"
  using imem_invalidation_after_two_commits [of "init example_collab" False True]
  by (simp add: init_def invalidate_imem_def)

section \<open>Locked is terminal\<close>

lemma step_fsm:
  "fsm_state (step E b s) = fsm_state s"
  "next_fsm_state (step E b s) = next_fsm_state s"
  by (simp_all add: step_def take_injected_err_bits_def stop_at_end_of_cycle_def called_def Let_def)

lemma commit_fsm:
  "fsm_state (commit b s) = next_fsm_state s"
  "next_fsm_state (commit b s) = next_fsm_state s"
  by (simp_all add: commit_def imem_invalidation_tick_def latch_fsm_state_def
      commit_parts Let_def split: option.splits)

text \<open>C4: from a state whose committed FSM state and next-FSM-state field are both
  LOCKED, no sequence of \<open>step\<close> and \<open>commit\<close> calls, whatever their arguments, moves
  the committed FSM state away from LOCKED.\<close>

theorem locked_is_terminal:
  "fsm_state s = LOCKED \<Longrightarrow> next_fsm_state s = LOCKED \<Longrightarrow> fsm_state (drive E cs s) = LOCKED"
proof (induction cs arbitrary: s)
  case Nil
  then show ?case by simp
next
  case (Cons c cs)
  show ?case
  proof (cases c)
    case (Step b)
    then show ?thesis using Cons by (simp add: step_fsm)
  next
    case (Commit_call b)
    then show ?thesis using Cons by (simp add: commit_fsm)
  qed
qed

theorem locked_is_terminal_witness:
  "fsm_state ((init example_collab)\<lparr>fsm_state := LOCKED, next_fsm_state := LOCKED\<rparr>) = LOCKED \<and>
   next_fsm_state ((init example_collab)\<lparr>fsm_state := LOCKED, next_fsm_state := LOCKED\<rparr>) = LOCKED \<and>
   fsm_state (drive example_collab [Step True, Commit_call False, Step False, Commit_call True]
     ((init example_collab)\<lparr>fsm_state := LOCKED, next_fsm_state := LOCKED\<rparr>)) = LOCKED"
  using locked_is_terminal [of "(init example_collab)\<lparr>fsm_state := LOCKED, next_fsm_state := LOCKED\<rparr>"
      example_collab "[Step True, Commit_call False, Step False, Commit_call True]"]
  by simp

section \<open>Stopping\<close>

subsection \<open>The phases of \<open>stop\<close>\<close>

lemma abort_state_sel:
  "gprs (abort_state s) = abort_staged (gprs s)"
  "dmem (abort_state s) = abort_staged (dmem s)"
  "loop_stack (abort_state s) = abort_staged (loop_stack s)"
  "ext_regs (abort_state s) = ext_abort (ext_regs s)"
  "wsrs (abort_state s) = wsrs_abort_all (wsrs s)"
  "csrs (abort_state s) = flags_update abort_staged (csrs s)"
  "wdrs (abort_state s) = abort_staged (wdrs s)"
  "pc_next_override (abort_state s) = None"
  "calls (abort_state s) = calls s @ [Abort GPRS, Abort DMEM, Abort LOOP_STACK, Abort EXT_REGS,
      Abort WSRS, Abort FLAGS, Abort WDRS]"
  "err_bits (abort_state s) = err_bits s"
  "fsm_state (abort_state s) = fsm_state s"
  "software_errs_fatal (abort_state s) = software_errs_fatal s"
  "rma_req (abort_state s) = rma_req s"
  "lock_immediately (abort_state s) = lock_immediately s"
  "init_sec_wipe_state (abort_state s) = init_sec_wipe_state s"
  "pc (abort_state s) = pc s"
  by (simp_all add: abort_state_def Let_def called_def)

lemma should_lock_cong:
  "err_bits t = err_bits s \<Longrightarrow> software_errs_fatal t = software_errs_fatal s \<Longrightarrow>
   rma_req t = rma_req s \<Longrightarrow> should_lock t = should_lock s"
  by (simp add: should_lock_def)

lemma stop_rolled_back:
  assumes "err_bits s \<noteq> 0" "fsm_state s = EXEC"
  shows "stop E s =
     (case stop_branch E (should_lock s)
        ((ext_regs_write ''ERR_BITS'' (err_bits s)
            (ext_regs_set_bits ''INTR_STATE'' 1 (abort_state s)))\<lparr>pending_halt := False\<rparr>) of
        Inl e \<Rightarrow> Inl e
      | Inr s5 \<Rightarrow> Inr (called RndForget s5))"
proof -
  have "should_lock (ext_regs_set_bits ''INTR_STATE'' 1 (abort_state s)) = should_lock s"
    by (rule should_lock_cong) (simp_all add: ext_calls abort_state_sel)
  then show ?thesis
    using assms by (simp add: stop_def Let_def ext_calls abort_state_sel)
qed

lemma stop_kept:
  assumes "err_bits s = 0 \<or> fsm_state s \<noteq> EXEC"
  shows "stop E s =
     (case stop_branch E (should_lock s)
        ((ext_regs_write ''ERR_BITS'' (err_bits s)
            (ext_regs_set_bits ''INTR_STATE'' 1 s))\<lparr>pending_halt := False\<rparr>) of
        Inl e \<Rightarrow> Inl e
      | Inr s5 \<Rightarrow> Inr (called RndForget s5))"
proof -
  have "should_lock (ext_regs_set_bits ''INTR_STATE'' 1 s) = should_lock s"
    by (rule should_lock_cong) (simp_all add: ext_calls)
  then show ?thesis
    using assms by (auto simp add: stop_def Let_def ext_calls)
qed

lemma stop_unfolded:
  "stop E s =
     (case stop_branch E (should_lock s)
        ((ext_regs_write ''ERR_BITS'' (err_bits s)
            (ext_regs_set_bits ''INTR_STATE'' 1
               (if err_bits s \<noteq> 0 \<and> fsm_state s = EXEC then abort_state s else s)))
          \<lparr>pending_halt := False\<rparr>) of
        Inl e \<Rightarrow> Inl e
      | Inr s5 \<Rightarrow> Inr (called RndForget s5))"
proof (cases "err_bits s \<noteq> 0 \<and> fsm_state s = EXEC")
  case True
  then show ?thesis using stop_rolled_back [of s E] by simp
next
  case False
  then show ?thesis using stop_kept [of s E] by auto
qed

lemma stop_branch_frame:
  assumes "stop_branch E sl h = Inr s5"
  shows "gprs s5 = gprs h" "dmem s5 = dmem h" "loop_stack s5 = loop_stack h" "wsrs s5 = wsrs h"
    "csrs s5 = csrs h" "wdrs s5 = wdrs h" "pc_next_override s5 = pc_next_override h"
    "name \<notin> {''STOP_PC'', ''WIPE_START'', ''STATUS''} \<Longrightarrow> ext_regs s5 name = ext_regs h name"
    "take (length (calls h)) (calls s5) = calls h"
    "Abort r \<notin> set (drop (length (calls h)) (calls s5))"
  using assms
  by (auto simp add: stop_branch_def Let_def set_fsm_state_def ext_calls ext_ops
      split: if_splits)

lemma stop_cases:
  assumes "stop E s = Inr s'"
  obtains h s5 where
    "h = (ext_regs_write ''ERR_BITS'' (err_bits s)
            (ext_regs_set_bits ''INTR_STATE'' 1
               (if err_bits s \<noteq> 0 \<and> fsm_state s = EXEC then abort_state s else s)))
          \<lparr>pending_halt := False\<rparr>"
    "stop_branch E (should_lock s) h = Inr s5" "s' = called RndForget s5"
proof (cases "err_bits s \<noteq> 0 \<and> fsm_state s = EXEC")
  case True
  then show ?thesis
    using assms that stop_rolled_back [of s E] by (auto split: sum.splits)
next
  case False
  then show ?thesis
    using assms that stop_kept [of s E] by (auto split: sum.splits)
qed

lemma stop_exec_branch:
  assumes "\<not> lock_immediately h" "fsm_state h = EXEC"
  shows "stop_branch E sl h = Inr
       ((set_fsm_state PRE_WIPE (ext_regs_reg_commit ''WIPE_START''
          (ext_regs_write ''WIPE_START'' 1 (ext_regs_write ''STOP_PC'' (pc h) h))))
          \<lparr>lock_after_wipe := sl, wipe_rounds_done := 0\<rparr>)"
  using assms by (simp add: stop_branch_def Let_def)

lemma stop_lock_immediately_branch:
  assumes "lock_immediately h" "stop_branch E sl h = Inr s5"
  shows "s5 = ext_regs_write ''STATUS'' (Status_LOCKED E) (set_fsm_state LOCKED h)"
  using assms by (simp add: stop_branch_def split: if_splits)

lemma stop_exec_returns:
  assumes "\<not> lock_immediately s" "fsm_state s = EXEC"
  shows "stop E s = Inr (projr (stop E s))"
proof -
  let ?h = "(ext_regs_write ''ERR_BITS'' (err_bits s)
            (ext_regs_set_bits ''INTR_STATE'' 1
               (if err_bits s \<noteq> 0 \<and> fsm_state s = EXEC then abort_state s else s)))
          \<lparr>pending_halt := False\<rparr>"
  have "lock_immediately ?h = lock_immediately s" "fsm_state ?h = fsm_state s"
    by (simp_all add: ext_calls abort_state_sel)
  with assms have "\<exists>s5. stop_branch E (should_lock s) ?h = Inr s5"
    using stop_exec_branch [of ?h E "should_lock s"] by simp
  then show ?thesis
    unfolding stop_unfolded [of E s] by auto
qed

subsection \<open>The lock decision\<close>

lemma int_nonzero_bit: "(x::int) \<noteq> 0 \<longleftrightarrow> (\<exists>n. bit x n)"
proof
  assume "x \<noteq> 0"
  show "\<exists>n. bit x n"
  proof (rule ccontr)
    assume "\<not> (\<exists>n. bit x n)"
    then have "\<And>n. bit x n = bit (0::int) n" by simp
    then have "x = 0" by (rule bit_eqI)
    with \<open>x \<noteq> 0\<close> show False by simp
  qed
next
  assume "\<exists>n. bit x n"
  then show "x \<noteq> 0" by auto
qed

lemma high_bits: "drop_bit 16 (e::int) \<noteq> 0 \<longleftrightarrow> (\<exists>i\<ge>16. bit e i)"
proof
  assume "drop_bit 16 e \<noteq> 0"
  then obtain n where "bit (drop_bit 16 e) n"
    unfolding int_nonzero_bit ..
  then have "bit e (16 + n)" by (simp add: bit_drop_bit_eq add.commute)
  then show "\<exists>i\<ge>16. bit e i" by (intro exI[of _ "16 + n"]) simp
next
  assume "\<exists>i\<ge>16. bit e i"
  then obtain i where i: "16 \<le> i" "bit e i" by blast
  then have "bit (drop_bit 16 e) (i - 16)" by (simp add: bit_drop_bit_eq)
  then have "\<exists>n. bit (drop_bit 16 e) n" ..
  then show "drop_bit 16 e \<noteq> 0" by (simp only: int_nonzero_bit)
qed

lemma bit_ten: "drop_bit 10 (e::int) AND 1 \<noteq> 0 \<longleftrightarrow> bit e 10"
  by (simp add: and_one_eq bit_iff_odd_drop_bit mod_2_eq_odd)

lemma should_lock_iff:
  "should_lock s \<longleftrightarrow>
     (\<exists>i\<ge>16. bit (err_bits s) i) \<or> bit (err_bits s) 10 \<or>
     (err_bits s \<noteq> 0 \<and> software_errs_fatal s) \<or> rma_req s = ON"
  by (simp only: should_lock_def high_bits bit_ten)

text \<open>C3: the value that \<open>stop\<close> binds to \<^verbatim>\<open>should_lock\<close> is the disjunction of: some
  error bit at position 16 or above is set, error bit 10 is set, the error bits are
  nonzero while \<open>software_errs_fatal\<close> is set, and \<open>rma_req\<close> is ON. It depends on the
  state through these three fields only, \<open>stop\<close> evaluates it once and hands that
  value to its final branch, and when \<open>stop\<close> leaves EXEC for the wipe it is the value
  \<open>lock_after_wipe\<close> receives.\<close>

theorem should_lock_decision:
  "(should_lock s \<longleftrightarrow>
     (\<exists>i\<ge>16. bit (err_bits s) i) \<or> bit (err_bits s) 10 \<or>
     (err_bits s \<noteq> 0 \<and> software_errs_fatal s) \<or> rma_req s = ON) \<and>
   stop E s =
     (case stop_branch E
        ((\<exists>i\<ge>16. bit (err_bits s) i) \<or> bit (err_bits s) 10 \<or>
         (err_bits s \<noteq> 0 \<and> software_errs_fatal s) \<or> rma_req s = ON)
        ((ext_regs_write ''ERR_BITS'' (err_bits s)
            (ext_regs_set_bits ''INTR_STATE'' 1
               (if err_bits s \<noteq> 0 \<and> fsm_state s = EXEC then abort_state s else s)))
          \<lparr>pending_halt := False\<rparr>) of
        Inl e \<Rightarrow> Inl e
      | Inr s5 \<Rightarrow> Inr (called RndForget s5)) \<and>
   (\<not> lock_immediately s \<and> fsm_state s = EXEC \<longrightarrow>
      (\<exists>s'. stop E s = Inr s' \<and>
         lock_after_wipe s' =
           ((\<exists>i\<ge>16. bit (err_bits s) i) \<or> bit (err_bits s) 10 \<or>
            (err_bits s \<noteq> 0 \<and> software_errs_fatal s) \<or> rma_req s = ON)))"
proof -
  let ?D = "(\<exists>i\<ge>16. bit (err_bits s) i) \<or> bit (err_bits s) 10 \<or>
     (err_bits s \<noteq> 0 \<and> software_errs_fatal s) \<or> rma_req s = ON"
  let ?h = "(ext_regs_write ''ERR_BITS'' (err_bits s)
            (ext_regs_set_bits ''INTR_STATE'' 1
               (if err_bits s \<noteq> 0 \<and> fsm_state s = EXEC then abort_state s else s)))
          \<lparr>pending_halt := False\<rparr>"
  have 1: "should_lock s \<longleftrightarrow> ?D" by (rule should_lock_iff)
  have 2: "stop E s = (case stop_branch E ?D ?h of Inl e \<Rightarrow> Inl e | Inr s5 \<Rightarrow> Inr (called RndForget s5))"
    using stop_unfolded [of E s] unfolding 1 .
  have 3: "\<exists>s'. stop E s = Inr s' \<and> lock_after_wipe s' = ?D"
    if "\<not> lock_immediately s" "fsm_state s = EXEC"
  proof -
    have "lock_immediately ?h = lock_immediately s" "fsm_state ?h = fsm_state s"
      by (simp_all add: ext_calls abort_state_sel)
    with that have "stop_branch E ?D ?h = Inr
       ((set_fsm_state PRE_WIPE (ext_regs_reg_commit ''WIPE_START''
          (ext_regs_write ''WIPE_START'' 1 (ext_regs_write ''STOP_PC'' (pc ?h) ?h))))
          \<lparr>lock_after_wipe := ?D, wipe_rounds_done := 0\<rparr>)"
      by (simp add: stop_branch_def Let_def)
    then show ?thesis
      unfolding 2 by (simp add: called_def)
  qed
  from 1 2 3 show ?thesis by blast
qed

theorem should_lock_decision_witness:
  "should_lock ((init example_collab)\<lparr>fsm_state := EXEC, err_bits := 65536\<rparr>) \<and>
   lock_after_wipe (projr (stop example_collab
      ((init example_collab)\<lparr>fsm_state := EXEC, err_bits := 65536\<rparr>)))"
proof -
  let ?s = "(init example_collab)\<lparr>fsm_state := EXEC, err_bits := 65536\<rparr>"
  have b: "\<exists>i\<ge>16. bit (err_bits ?s) i"
    by (rule exI [of _ 16]) (simp add: bit_iff_odd)
  have f: "\<not> lock_immediately ?s" "fsm_state ?s = EXEC"
    by (simp_all add: init_def)
  note d = should_lock_decision [of ?s example_collab]
  have 1: "should_lock ?s"
    using d [THEN conjunct1] b by blast
  obtain s' where 2: "stop example_collab ?s = Inr s'" "lock_after_wipe s'"
    using d [THEN conjunct2, THEN conjunct2] b f by blast
  show ?thesis using 1 2 by simp
qed

subsection \<open>Rollback of a failed instruction\<close>

text \<open>C1, as stated, fails: a \<open>stop\<close> that rolls back an instruction in EXEC still
  raises WIPE_START and commits it at once, so after the call that external register
  reads 1 where its committed value before the instruction was 0.\<close>

theorem stop_rollback_counterexample:
  "err_bits ((init example_collab)\<lparr>fsm_state := EXEC, err_bits := 1\<rparr>) \<noteq> 0 \<and>
   fsm_state ((init example_collab)\<lparr>fsm_state := EXEC, err_bits := 1\<rparr>) = EXEC \<and>
   \<not> isl (stop example_collab ((init example_collab)\<lparr>fsm_state := EXEC, err_bits := 1\<rparr>)) \<and>
   committed (ext_regs ((init example_collab)\<lparr>fsm_state := EXEC, err_bits := 1\<rparr>) ''WIPE_START'') = 0 \<and>
   observe (ext_regs (projr (stop example_collab ((init example_collab)\<lparr>fsm_state := EXEC, err_bits := 1\<rparr>)))
      ''WIPE_START'') = 1"
  by (simp add: stop_def stop_branch_def Let_def abort_state_def set_fsm_state_def ext_calls ext_ops
      staged_ops should_lock_def init_def example_collab_def)

text \<open>C1, amended: every returning \<open>stop\<close> stages bit 0 of INTR_STATE and stages the
  error bits in ERR_BITS. When the error bits are nonzero and the FSM state is EXEC,
  \<open>stop\<close> first calls abort on every resource, so that the general registers, memory,
  loop stack, special registers (URND included), flags and wide registers read their
  committed values with nothing staged, the next-PC override is cleared, and so does
  every external register that \<open>stop\<close> does not write afterwards. Besides INTR_STATE
  and ERR_BITS, whose committed values are kept, \<open>stop\<close> writes STATUS when
  \<open>lock_immediately\<close> is set, and otherwise stages the PC in STOP_PC and commits 1 to
  WIPE_START.\<close>

theorem stop_rollback:
  assumes "stop E s = Inr s'"
  shows "bit (observe (ext_regs s' ''INTR_STATE'')) 0 \<and>
     pending (ext_regs s' ''ERR_BITS'') = Some (err_bits s) \<and>
     (err_bits s \<noteq> 0 \<and> fsm_state s = EXEC \<longrightarrow>
        observe (gprs s') = committed (gprs s) \<and> pending (gprs s') = None \<and>
        observe (dmem s') = committed (dmem s) \<and> pending (dmem s') = None \<and>
        observe (loop_stack s') = committed (loop_stack s) \<and> pending (loop_stack s') = None \<and>
        observe (others (wsrs s')) = committed (others (wsrs s)) \<and> pending (others (wsrs s')) = None \<and>
        observe (URND (wsrs s')) = committed (URND (wsrs s)) \<and> pending (URND (wsrs s')) = None \<and>
        observe (flags (csrs s')) = committed (flags (csrs s)) \<and> pending (flags (csrs s')) = None \<and>
        observe (wdrs s') = committed (wdrs s) \<and> pending (wdrs s') = None \<and>
        pc_next_override s' = None \<and>
        (\<forall>name. name \<notin> {''INTR_STATE'', ''ERR_BITS'', ''STOP_PC'', ''WIPE_START'', ''STATUS''} \<longrightarrow>
           observe (ext_regs s' name) = committed (ext_regs s name) \<and>
           pending (ext_regs s' name) = None) \<and>
        committed (ext_regs s' ''INTR_STATE'') = committed (ext_regs s ''INTR_STATE'') \<and>
        committed (ext_regs s' ''ERR_BITS'') = committed (ext_regs s ''ERR_BITS'') \<and>
        (if lock_immediately s
         then pending (ext_regs s' ''STATUS'') = Some (Status_LOCKED E) \<and>
              ext_regs s' ''STOP_PC'' = abort_staged (ext_regs s ''STOP_PC'') \<and>
              ext_regs s' ''WIPE_START'' = abort_staged (ext_regs s ''WIPE_START'')
         else ext_regs s' ''STATUS'' = abort_staged (ext_regs s ''STATUS'') \<and>
              pending (ext_regs s' ''STOP_PC'') = Some (pc s) \<and>
              committed (ext_regs s' ''STOP_PC'') = committed (ext_regs s ''STOP_PC'') \<and>
              ext_regs s' ''WIPE_START'' = \<lparr>committed = 1, pending = None\<rparr>) \<and>
        take 7 (drop (length (calls s)) (calls s')) =
          [Abort GPRS, Abort DMEM, Abort LOOP_STACK, Abort EXT_REGS, Abort WSRS, Abort FLAGS,
           Abort WDRS])"
proof -
  from assms obtain h s5 where
    h: "h = (ext_regs_write ''ERR_BITS'' (err_bits s)
            (ext_regs_set_bits ''INTR_STATE'' 1
               (if err_bits s \<noteq> 0 \<and> fsm_state s = EXEC then abort_state s else s)))
          \<lparr>pending_halt := False\<rparr>"
    and b: "stop_branch E (should_lock s) h = Inr s5" and s': "s' = called RndForget s5"
    by (rule stop_cases)
  note f = stop_branch_frame [OF b]
  have e: "ext_regs s' = ext_regs s5" by (simp add: s' called_def)
  have "ext_regs s' ''INTR_STATE'' = ext_regs h ''INTR_STATE''"
    "ext_regs s' ''ERR_BITS'' = ext_regs h ''ERR_BITS''"
    using f(8) [of "''INTR_STATE''"] f(8) [of "''ERR_BITS''"] by (simp_all add: e)
  then have always: "bit (observe (ext_regs s' ''INTR_STATE'')) 0"
    "pending (ext_regs s' ''ERR_BITS'') = Some (err_bits s)"
    by (simp_all add: h ext_calls ext_ops staged_ops bit_or_iff)
  have rolled: ?thesis if fail: "err_bits s \<noteq> 0" "fsm_state s = EXEC"
  proof -
    have h': "h = (ext_regs_write ''ERR_BITS'' (err_bits s)
            (ext_regs_set_bits ''INTR_STATE'' 1 (abort_state s)))\<lparr>pending_halt := False\<rparr>"
      using fail unfolding h by simp
    have hs: "gprs h = abort_staged (gprs s)" "dmem h = abort_staged (dmem s)"
      "loop_stack h = abort_staged (loop_stack s)" "wsrs h = wsrs_abort_all (wsrs s)"
      "csrs h = flags_update abort_staged (csrs s)" "wdrs h = abort_staged (wdrs s)"
      "pc_next_override h = None" "pc h = pc s" "lock_immediately h = lock_immediately s"
      "fsm_state h = EXEC"
      "calls h = calls s @ [Abort GPRS, Abort DMEM, Abort LOOP_STACK, Abort EXT_REGS, Abort WSRS,
         Abort FLAGS, Abort WDRS, SetBits ''INTR_STATE'' 1, Write ''ERR_BITS'' (err_bits s)]"
      using fail(2) unfolding h' by (simp_all add: ext_calls abort_state_sel)
    have he: "ext_regs h = ext_write ''ERR_BITS'' (err_bits s)
        (ext_set_bits ''INTR_STATE'' 1 (ext_abort (ext_regs s)))"
      unfolding h' by (simp add: ext_calls abort_state_sel)
    have 1: "observe (gprs s') = committed (gprs s) \<and> pending (gprs s') = None \<and>
        observe (dmem s') = committed (dmem s) \<and> pending (dmem s') = None \<and>
        observe (loop_stack s') = committed (loop_stack s) \<and> pending (loop_stack s') = None \<and>
        observe (others (wsrs s')) = committed (others (wsrs s)) \<and> pending (others (wsrs s')) = None \<and>
        observe (URND (wsrs s')) = committed (URND (wsrs s)) \<and> pending (URND (wsrs s')) = None \<and>
        observe (flags (csrs s')) = committed (flags (csrs s)) \<and> pending (flags (csrs s')) = None \<and>
        observe (wdrs s') = committed (wdrs s) \<and> pending (wdrs s') = None \<and>
        pc_next_override s' = None"
      using f(1-7) hs(1-7) by (simp add: s' called_def staged_ops wsrs_abort_all_def)
    have 2: "observe (ext_regs s' name) = committed (ext_regs s name) \<and>
           pending (ext_regs s' name) = None"
      if "name \<notin> {''INTR_STATE'', ''ERR_BITS'', ''STOP_PC'', ''WIPE_START'', ''STATUS''}" for name
      using that f(8) [of name] by (simp add: e he ext_ops staged_ops)
    have 3: "committed (ext_regs s' ''INTR_STATE'') = committed (ext_regs s ''INTR_STATE'')"
      "committed (ext_regs s' ''ERR_BITS'') = committed (ext_regs s ''ERR_BITS'')"
      using f(8) [of "''INTR_STATE''"] f(8) [of "''ERR_BITS''"]
      by (simp_all add: e he ext_ops staged_ops)
    have 4: "if lock_immediately s
         then pending (ext_regs s' ''STATUS'') = Some (Status_LOCKED E) \<and>
              ext_regs s' ''STOP_PC'' = abort_staged (ext_regs s ''STOP_PC'') \<and>
              ext_regs s' ''WIPE_START'' = abort_staged (ext_regs s ''WIPE_START'')
         else ext_regs s' ''STATUS'' = abort_staged (ext_regs s ''STATUS'') \<and>
              pending (ext_regs s' ''STOP_PC'') = Some (pc s) \<and>
              committed (ext_regs s' ''STOP_PC'') = committed (ext_regs s ''STOP_PC'') \<and>
              ext_regs s' ''WIPE_START'' = \<lparr>committed = 1, pending = None\<rparr>"
    proof (cases "lock_immediately s")
      case True
      then have "s5 = ext_regs_write ''STATUS'' (Status_LOCKED E) (set_fsm_state LOCKED h)"
        using stop_lock_immediately_branch [OF _ b] hs(9) by simp
      then have "ext_regs s' = ext_write ''STATUS'' (Status_LOCKED E) (ext_regs h)"
        by (simp add: e ext_calls set_fsm_state_def)
      then show ?thesis using True by (simp add: he ext_ops staged_ops)
    next
      case False
      then have "s5 = (set_fsm_state PRE_WIPE (ext_regs_reg_commit ''WIPE_START''
          (ext_regs_write ''WIPE_START'' 1 (ext_regs_write ''STOP_PC'' (pc h) h))))
          \<lparr>lock_after_wipe := should_lock s, wipe_rounds_done := 0\<rparr>"
        using stop_exec_branch [of h E "should_lock s"] b hs(9,10) by simp
      then have "ext_regs s' = ext_reg_commit ''WIPE_START''
          (ext_write ''WIPE_START'' 1 (ext_write ''STOP_PC'' (pc s) (ext_regs h)))"
        by (simp add: e ext_calls set_fsm_state_def hs(8))
      then show ?thesis using False by (simp add: he ext_ops staged_ops)
    qed
    obtain cs where cs: "calls s5 = calls h @ cs"
      using f(9) by (metis append_take_drop_id)
    have 5: "take 7 (drop (length (calls s)) (calls s')) =
          [Abort GPRS, Abort DMEM, Abort LOOP_STACK, Abort EXT_REGS, Abort WSRS, Abort FLAGS,
           Abort WDRS]"
      by (simp add: s' called_def cs hs(11))
    from always 1 2 3 4 5 show ?thesis by blast
  qed
  show ?thesis
  proof (cases "err_bits s \<noteq> 0 \<and> fsm_state s = EXEC")
    case True
    then show ?thesis using rolled by blast
  next
    case False
    then show ?thesis using always by blast
  qed
qed

theorem stop_rollback_witness:
  "err_bits ((init example_collab)\<lparr>fsm_state := EXEC, err_bits := 1,
       gprs := \<lparr>committed = 1, pending = Some 5\<rparr>, pc_next_override := Some 16\<rparr>) \<noteq> 0 \<and>
   fsm_state ((init example_collab)\<lparr>fsm_state := EXEC, err_bits := 1,
       gprs := \<lparr>committed = 1, pending = Some 5\<rparr>, pc_next_override := Some 16\<rparr>) = EXEC \<and>
   observe (gprs (projr (stop example_collab ((init example_collab)\<lparr>fsm_state := EXEC, err_bits := 1,
       gprs := \<lparr>committed = 1, pending = Some 5\<rparr>, pc_next_override := Some 16\<rparr>)))) = 1 \<and>
   pc_next_override (projr (stop example_collab ((init example_collab)\<lparr>fsm_state := EXEC, err_bits := 1,
       gprs := \<lparr>committed = 1, pending = Some 5\<rparr>, pc_next_override := Some 16\<rparr>))) = None \<and>
   pending (ext_regs (projr (stop example_collab ((init example_collab)\<lparr>fsm_state := EXEC, err_bits := 1,
       gprs := \<lparr>committed = 1, pending = Some 5\<rparr>, pc_next_override := Some 16\<rparr>))) ''ERR_BITS'') = Some 1"
proof -
  let ?s = "(init example_collab)\<lparr>fsm_state := EXEC, err_bits := 1,
       gprs := \<lparr>committed = 1, pending = Some 5\<rparr>, pc_next_override := Some 16\<rparr>"
  have r: "stop example_collab ?s = Inr (projr (stop example_collab ?s))"
    by (rule stop_exec_returns) (simp_all add: init_def)
  show ?thesis
    using stop_rollback [OF r] by (simp add: init_def)
qed

subsection \<open>Stopping without rollback\<close>

lemma loop_step_frame:
  assumes "loop_step E w s = Inr s1"
  shows "err_bits s1 = err_bits s" "pending_halt s1 = pending_halt s" "ext_regs s1 = ext_regs s"
  using assms
  by (auto simp add: loop_step_def Let_def called_def set_next_pc_def
      split: prod.splits option.splits sum.splits if_splits)

lemma post_insn_checks_ext:
  assumes "post_insn_checks E s = Inr s'"
  shows "ext_regs s' = ext_regs s"
  using assms
  by (auto simp add: post_insn_checks_def Let_def called_def split: sum.splits if_splits)

lemma post_insn_insn_cnt:
  assumes "post_insn E w s = Inr s'"
  shows "pending (ext_regs s' ''INSN_CNT'') = Some (observe (ext_regs s ''INSN_CNT'') + 1)"
proof -
  from assms obtain s1 where 1: "loop_step E w (increment_insn_cnt s) = Inr s1"
    and 2: "post_insn_checks E s1 = Inr s'"
    by (auto simp add: post_insn_def split: sum.splits)
  have "ext_regs s' = ext_regs (increment_insn_cnt s)"
    using loop_step_frame(3) [OF 1] post_insn_checks_ext [OF 2] by simp
  then show ?thesis
    by (simp add: increment_insn_cnt_def called_def ext_ops staged_ops)
qed

text \<open>C10: a returning \<open>stop\<close> whose error bits are zero, or whose FSM state is not
  EXEC, performs no abort: none of its calls on the collaborators is an abort, the
  general registers, memory, loop stack, special registers, flags, wide registers and
  the next-PC override are exactly as before, and so is every external register that
  \<open>stop\<close> does not itself write, INSN_CNT among them. In particular the increment of
  INSN_CNT that a preceding \<open>post_insn\<close> staged is still staged. With the rollback
  theorem above, an abort happens exactly when the error bits are nonzero and the FSM
  state is EXEC.\<close>

theorem stop_without_rollback:
  assumes "stop E s = Inr s'" and "err_bits s = 0 \<or> fsm_state s \<noteq> EXEC"
  shows "gprs s' = gprs s \<and> dmem s' = dmem s \<and> loop_stack s' = loop_stack s \<and>
     wsrs s' = wsrs s \<and> csrs s' = csrs s \<and> wdrs s' = wdrs s \<and>
     pc_next_override s' = pc_next_override s \<and>
     (\<forall>name. name \<notin> {''INTR_STATE'', ''ERR_BITS'', ''STOP_PC'', ''WIPE_START'', ''STATUS''} \<longrightarrow>
           ext_regs s' name = ext_regs s name) \<and>
     ext_regs s' ''INSN_CNT'' = ext_regs s ''INSN_CNT'' \<and>
     take (length (calls s)) (calls s') = calls s \<and>
     (\<forall>r. Abort r \<notin> set (drop (length (calls s)) (calls s'))) \<and>
     (\<forall>w s0. post_insn E w s0 = Inr s \<longrightarrow>
        pending (ext_regs s' ''INSN_CNT'') = Some (observe (ext_regs s0 ''INSN_CNT'') + 1))"
proof -
  from assms(1) obtain h s5 where
    h: "h = (ext_regs_write ''ERR_BITS'' (err_bits s)
            (ext_regs_set_bits ''INTR_STATE'' 1
               (if err_bits s \<noteq> 0 \<and> fsm_state s = EXEC then abort_state s else s)))
          \<lparr>pending_halt := False\<rparr>"
    and b: "stop_branch E (should_lock s) h = Inr s5" and s': "s' = called RndForget s5"
    by (rule stop_cases)
  from assms(2) have h': "h = (ext_regs_write ''ERR_BITS'' (err_bits s)
            (ext_regs_set_bits ''INTR_STATE'' 1 s))\<lparr>pending_halt := False\<rparr>"
    unfolding h by auto
  have hs: "gprs h = gprs s" "dmem h = dmem s" "loop_stack h = loop_stack s" "wsrs h = wsrs s"
    "csrs h = csrs s" "wdrs h = wdrs s" "pc_next_override h = pc_next_override s"
    "calls h = calls s @ [SetBits ''INTR_STATE'' 1, Write ''ERR_BITS'' (err_bits s)]"
    "\<And>name. name \<notin> {''INTR_STATE'', ''ERR_BITS''} \<Longrightarrow> ext_regs h name = ext_regs s name"
    unfolding h' by (simp_all add: ext_calls ext_ops)
  note f = stop_branch_frame [OF b]
  have 1: "gprs s' = gprs s \<and> dmem s' = dmem s \<and> loop_stack s' = loop_stack s \<and>
     wsrs s' = wsrs s \<and> csrs s' = csrs s \<and> wdrs s' = wdrs s \<and>
     pc_next_override s' = pc_next_override s"
    using f(1-7) hs(1-7) by (simp add: s' called_def)
  have 2: "ext_regs s' name = ext_regs s name"
    if "name \<notin> {''INTR_STATE'', ''ERR_BITS'', ''STOP_PC'', ''WIPE_START'', ''STATUS''}" for name
    using that f(8) [of name] hs(9) [of name] by (simp add: s' called_def)
  have 3: "ext_regs s' ''INSN_CNT'' = ext_regs s ''INSN_CNT''"
    by (rule 2) simp
  obtain cs where cs: "calls s5 = calls h @ cs"
    using f(9) by (metis append_take_drop_id)
  have noab: "Abort r \<notin> set cs" for r
    using f(10) [of r] cs by simp
  have 4: "calls s' = calls s @ ([SetBits ''INTR_STATE'' 1, Write ''ERR_BITS'' (err_bits s)] @ cs @ [RndForget])"
    by (simp add: s' called_def cs hs(8))
  have 5: "take (length (calls s)) (calls s') = calls s" unfolding 4 by simp
  have 6: "Abort r \<notin> set (drop (length (calls s)) (calls s'))" for r
    unfolding 4 using noab [of r] by simp
  have 7: "pending (ext_regs s' ''INSN_CNT'') = Some (observe (ext_regs s0 ''INSN_CNT'') + 1)"
    if "post_insn E w s0 = Inr s" for w s0
    using post_insn_insn_cnt [OF that] 3 by simp
  from 1 2 3 5 6 7 show ?thesis by blast
qed

theorem stop_without_rollback_witness:
  "err_bits (projr (post_insn example_collab Map.empty
      ((init example_collab)\<lparr>fsm_state := EXEC\<rparr>))) = 0 \<and>
   pending (ext_regs (projr (stop example_collab (projr (post_insn example_collab Map.empty
      ((init example_collab)\<lparr>fsm_state := EXEC\<rparr>))))) ''INSN_CNT'') = Some 1"
proof -
  let ?s0 = "(init example_collab)\<lparr>fsm_state := EXEC\<rparr>"
  let ?r = "post_insn example_collab Map.empty ?s0"
  have p: "?r = Inr (projr ?r)"
    by (simp add: post_insn_def loop_step_def post_insn_checks_def increment_insn_cnt_def
        is_pc_valid_def get_next_pc_def called_def Let_def init_def example_collab_def)
  have f: "err_bits (projr ?r) = 0" "\<not> lock_immediately (projr ?r)" "fsm_state (projr ?r) = EXEC"
    by (simp_all add: post_insn_def loop_step_def post_insn_checks_def increment_insn_cnt_def
        is_pc_valid_def get_next_pc_def called_def Let_def init_def example_collab_def)
  have r: "stop example_collab (projr ?r) = Inr (projr (stop example_collab (projr ?r)))"
    using f(2,3) by (rule stop_exec_returns)
  have "err_bits (projr ?r) = 0 \<or> fsm_state (projr ?r) \<noteq> EXEC" using f(1) by simp
  from stop_without_rollback [OF r this]
  have "\<forall>w s0. post_insn example_collab w s0 = Inr (projr ?r) \<longrightarrow>
      pending (ext_regs (projr (stop example_collab (projr ?r))) ''INSN_CNT'') =
        Some (observe (ext_regs s0 ''INSN_CNT'') + 1)"
    by blast
  with p have "pending (ext_regs (projr (stop example_collab (projr ?r))) ''INSN_CNT'') =
      Some (observe (ext_regs ?s0 ''INSN_CNT'') + 1)"
    by blast
  moreover have "observe (ext_regs ?s0 ''INSN_CNT'') = 0"
    by (simp add: init_def example_collab_def staged_ops)
  ultimately show ?thesis using f(1) by simp
qed

subsection \<open>A clean stop in EXEC\<close>

text \<open>C6, as stated, fails: with no error bits, \<open>lock_immediately\<close> unset and the FSM
  state EXEC, but the RMA request ON, \<open>stop\<close> sets \<open>lock_after_wipe\<close> to true.\<close>

theorem stop_clean_exec_counterexample:
  "err_bits ((init example_collab)\<lparr>fsm_state := EXEC, rma_req := ON\<rparr>) = 0 \<and>
   \<not> lock_immediately ((init example_collab)\<lparr>fsm_state := EXEC, rma_req := ON\<rparr>) \<and>
   fsm_state ((init example_collab)\<lparr>fsm_state := EXEC, rma_req := ON\<rparr>) = EXEC \<and>
   \<not> isl (stop example_collab ((init example_collab)\<lparr>fsm_state := EXEC, rma_req := ON\<rparr>)) \<and>
   lock_after_wipe (projr (stop example_collab ((init example_collab)\<lparr>fsm_state := EXEC, rma_req := ON\<rparr>)))"
  by (simp add: stop_def stop_branch_def Let_def set_fsm_state_def ext_calls ext_ops
      staged_ops should_lock_def init_def)

text \<open>C6, amended: a \<open>stop\<close> with zero error bits, \<open>lock_immediately\<close> unset and FSM
  state EXEC returns; it sets the next FSM state to PRE_WIPE, sets \<open>lock_after_wipe\<close>
  to whether the RMA request is ON (so to false when it is not), resets
  \<open>wipe_rounds_done\<close> to 0, stages the PC in STOP_PC, and writes 1 to WIPE_START and
  commits that register within the call.\<close>

theorem stop_clean_exec:
  assumes "err_bits s = 0" "\<not> lock_immediately s" "fsm_state s = EXEC"
  shows "\<exists>s'. stop E s = Inr s' \<and>
     next_fsm_state s' = PRE_WIPE \<and>
     lock_after_wipe s' = (rma_req s = ON) \<and>
     wipe_rounds_done s' = 0 \<and>
     pending (ext_regs s' ''STOP_PC'') = Some (pc s) \<and>
     ext_regs s' ''WIPE_START'' = \<lparr>committed = 1, pending = None\<rparr> \<and>
     calls s' = calls s @ [SetBits ''INTR_STATE'' 1, Write ''ERR_BITS'' 0, Write ''STOP_PC'' (pc s),
        Write ''WIPE_START'' 1, RegCommit ''WIPE_START'', RndForget]"
  using assms
  by (simp add: stop_def stop_branch_def Let_def should_lock_def set_fsm_state_def ext_calls ext_ops
      record_write_def commit_staged_def observe_def)

theorem stop_clean_exec_witness:
  "err_bits ((init example_collab)\<lparr>fsm_state := EXEC, pc := 8\<rparr>) = 0 \<and>
   \<not> lock_immediately ((init example_collab)\<lparr>fsm_state := EXEC, pc := 8\<rparr>) \<and>
   fsm_state ((init example_collab)\<lparr>fsm_state := EXEC, pc := 8\<rparr>) = EXEC \<and>
   next_fsm_state (projr (stop example_collab ((init example_collab)\<lparr>fsm_state := EXEC, pc := 8\<rparr>))) = PRE_WIPE \<and>
   \<not> lock_after_wipe (projr (stop example_collab ((init example_collab)\<lparr>fsm_state := EXEC, pc := 8\<rparr>))) \<and>
   pending (ext_regs (projr (stop example_collab ((init example_collab)\<lparr>fsm_state := EXEC, pc := 8\<rparr>)))
      ''STOP_PC'') = Some 8"
  using stop_clean_exec [of "(init example_collab)\<lparr>fsm_state := EXEC, pc := 8\<rparr>" example_collab]
  by (auto simp add: init_def)

section \<open>Starting\<close>

text \<open>C7: \<open>start\<close> stages BUSY_EXECUTE in STATUS, clears \<open>pending_halt\<close>, zeroes the
  error bits, sets the current and the next FSM state to PRE_EXEC, resets the PC to 0,
  replaces the CSR file and the loop stack by fresh ones, empties the call stack, lets
  the WSR file apply its own start treatment, poisons the RND request and requests a
  URND seed, in this order of calls.\<close>

theorem start_effects:
  "pending (ext_regs (start E s) ''STATUS'') = Some (Status_BUSY_EXECUTE E) \<and>
   \<not> pending_halt (start E s) \<and>
   err_bits (start E s) = 0 \<and>
   fsm_state (start E s) = PRE_EXEC \<and>
   next_fsm_state (start E s) = PRE_EXEC \<and>
   pc (start E s) = 0 \<and>
   csrs (start E s) = \<lparr>flags = fresh (new_flags E)\<rparr> \<and>
   loop_stack (start E s) = fresh (new_LoopStack E) \<and>
   gprs (start E s) = gprs_empty_call_stack E (gprs s) \<and>
   wsrs (start E s) = wsrs_on_start E (wsrs s) \<and>
   calls (start E s) = calls s @ [Write ''STATUS'' (Status_BUSY_EXECUTE E), NewCSRFile, WsrsOnStart,
      NewLoopStack, EmptyCallStack, RndPoison, UrndRequest]"
  by (simp add: start_def Let_def ext_calls ext_ops record_write_def)

theorem start_effects_witness:
  "fsm_state (start example_collab ((init example_collab)\<lparr>fsm_state := IDLE, err_bits := 3,
      pending_halt := True, pc := 12\<rparr>)) = PRE_EXEC \<and>
   err_bits (start example_collab ((init example_collab)\<lparr>fsm_state := IDLE, err_bits := 3,
      pending_halt := True, pc := 12\<rparr>)) = 0 \<and>
   pc (start example_collab ((init example_collab)\<lparr>fsm_state := IDLE, err_bits := 3,
      pending_halt := True, pc := 12\<rparr>)) = 0 \<and>
   observe (ext_regs (start example_collab ((init example_collab)\<lparr>fsm_state := IDLE, err_bits := 3,
      pending_halt := True, pc := 12\<rparr>)) ''STATUS'') = 1"
  using start_effects [of example_collab "(init example_collab)\<lparr>fsm_state := IDLE, err_bits := 3,
      pending_halt := True, pc := 12\<rparr>"]
  by (simp add: example_collab_def observe_def)

section \<open>Program counter validity\<close>

lemma and3: "0 \<le> (p::int) \<Longrightarrow> p AND 3 = p mod 4"
  using take_bit_eq_mask [of 2 p] by (simp add: take_bit_eq_mod mask_eq_exp_minus_1)

lemma is_pc_valid_iff: "is_pc_valid s p = Inr True \<longleftrightarrow> p mod 4 = 0 \<and> 0 \<le> p \<and> p < imem_size s"
  by (auto simp add: is_pc_valid_def and3)

lemma post_insn_checks_bad_addr:
  assumes "post_insn_checks E s = Inr s'"
    and "is_pc_valid s' (get_next_pc s') = Inr False"
    and "\<not> pending_halt s"
    and "err_bits s OR (gprs_err_bits E (gprs s') OR loop_stack_err_bits E (loop_stack s')) = 0"
  shows "err_bits s' = BAD_INSN_ADDR E \<and> pending_halt s'"
  using assms
  by (auto simp add: post_insn_checks_def Let_def called_def is_pc_valid_def get_next_pc_def
      split: sum.splits if_splits option.splits)

text \<open>C5: \<open>is_pc_valid\<close> returns true exactly for a PC that is a multiple of 4, not
  negative and below \<open>imem_size\<close>. When \<open>post_insn\<close> returns, the next PC it computed
  fails that check, and no halt is pending at the check (none was pending on entry
  and the error bits gathered from the accumulator, the registers and the loop stack
  are zero), then \<open>post_insn\<close> has set BAD_INSN_ADDR in the accumulator and has set
  \<open>pending_halt\<close>.\<close>

theorem pc_validity_and_bad_insn_addr:
  "(is_pc_valid s p = Inr True \<longleftrightarrow> p mod 4 = 0 \<and> 0 \<le> p \<and> p < imem_size s) \<and>
   (post_insn E w s = Inr s' \<and>
    is_pc_valid s' (get_next_pc s') = Inr False \<and>
    \<not> pending_halt s \<and>
    err_bits s OR (gprs_err_bits E (gprs s') OR loop_stack_err_bits E (loop_stack s')) = 0 \<longrightarrow>
    err_bits s' = BAD_INSN_ADDR E \<and> pending_halt s')"
proof -
  have "err_bits s' = BAD_INSN_ADDR E \<and> pending_halt s'"
    if a: "post_insn E w s = Inr s'" "is_pc_valid s' (get_next_pc s') = Inr False"
      "\<not> pending_halt s"
      "err_bits s OR (gprs_err_bits E (gprs s') OR loop_stack_err_bits E (loop_stack s')) = 0"
  proof -
    from a(1) obtain s1 where 1: "loop_step E w (increment_insn_cnt s) = Inr s1"
      and 2: "post_insn_checks E s1 = Inr s'"
      by (auto simp add: post_insn_def split: sum.splits)
    have "err_bits s1 = err_bits s" "pending_halt s1 = pending_halt s"
      using loop_step_frame(1,2) [OF 1] by (simp_all add: increment_insn_cnt_def called_def)
    then show ?thesis
      using post_insn_checks_bad_addr [OF 2 a(2)] a(3,4) by simp
  qed
  then show ?thesis using is_pc_valid_iff [of s p] by blast
qed

theorem pc_validity_and_bad_insn_addr_witness:
  "is_pc_valid ((init example_collab)\<lparr>fsm_state := EXEC, pc := 4092\<rparr>) 8 = Inr True \<and>
   err_bits (projr (post_insn example_collab Map.empty
      ((init example_collab)\<lparr>fsm_state := EXEC, pc := 4092\<rparr>))) = 2 \<and>
   pending_halt (projr (post_insn example_collab Map.empty
      ((init example_collab)\<lparr>fsm_state := EXEC, pc := 4092\<rparr>)))"
proof -
  let ?s = "(init example_collab)\<lparr>fsm_state := EXEC, pc := 4092\<rparr>"
  let ?r = "post_insn example_collab Map.empty ?s"
  have p: "?r = Inr (projr ?r)"
    by (simp add: post_insn_def loop_step_def post_insn_checks_def increment_insn_cnt_def
        is_pc_valid_def get_next_pc_def called_def Let_def init_def example_collab_def)
  have f: "is_pc_valid (projr ?r) (get_next_pc (projr ?r)) = Inr False" "\<not> pending_halt ?s"
    "err_bits ?s OR (gprs_err_bits example_collab (gprs (projr ?r)) OR
       loop_stack_err_bits example_collab (loop_stack (projr ?r))) = 0"
    by (simp_all add: post_insn_def loop_step_def post_insn_checks_def increment_insn_cnt_def
        is_pc_valid_def get_next_pc_def called_def Let_def init_def example_collab_def)
  have v: "(8::int) mod 4 = 0 \<and> (0::int) \<le> 8 \<and> 8 < imem_size ?s"
    by (simp add: init_def example_collab_def)
  show ?thesis
    using pc_validity_and_bad_insn_addr [of ?s 8 example_collab Map.empty "projr ?r"] p f v
    by (simp add: example_collab_def)
qed

section \<open>URND completion\<close>

lemma quarter: "drop_bit n (w::int) AND (push_bit 64 1 - 1) = (w div 2 ^ n) mod 2 ^ 64"
  using take_bit_eq_mask [of 64 "drop_bit n w"]
  by (simp add: take_bit_eq_mod mask_eq_exp_minus_1 drop_bit_eq_div)

lemma upt4: "[0..<4] = [0, 1, 2, 3]"
  by (simp add: upt_rec)

lemma w64s_eq:
  "map (\<lambda>i. drop_bit (64 * i) (w::int) AND (push_bit 64 1 - 1)) [0..<4] =
     [w mod 2 ^ 64, (w div 2 ^ 64) mod 2 ^ 64, (w div 2 ^ 128) mod 2 ^ 64, (w div 2 ^ 192) mod 2 ^ 64]"
  unfolding upt4 list.map quarter by simp

lemma div_less_int:
  fixes w b c :: int
  assumes "0 < c" "w < b * c"
  shows "w div c < b"
proof -
  have "c * (w div c) \<le> w"
    using pos_mod_sign [OF assms(1), of w] mult_div_mod_eq [of c w] by linarith
  then have "c * (w div c) < c * b" using assms(2) by (simp add: mult.commute)
  then show ?thesis using assms(1) by (simp add: mult_less_cancel_left_pos)
qed

lemma combine_digits:
  fixes w :: int
  shows "w = b * q1 + r0 \<Longrightarrow> q1 = b * q2 + r1 \<Longrightarrow> q2 = b * q3 + r2 \<Longrightarrow>
    r0 + b * r1 + b * b * r2 + b * b * b * q3 = w"
  by (simp add: algebra_simps)

lemma digits4:
  fixes w b :: int
  assumes "0 < b" "0 \<le> w" "w < b * (b * b * b)"
  shows "w mod b + b * ((w div b) mod b) + b * b * ((w div (b * b)) mod b)
      + b * b * b * ((w div (b * b * b)) mod b) = w"
proof -
  have b0: "0 \<le> b" using assms(1) by simp
  have d2: "w div (b * b) = w div b div b" using b0 by (simp add: zdiv_zmult2_eq)
  have d3: "w div (b * b * b) = w div b div b div b"
    using b0 by (simp add: zdiv_zmult2_eq)
  have "0 < b * b * b" using assms(1) by simp
  then have "w div (b * b * b) < b"
    using assms(3) by (rule div_less_int)
  moreover have "0 \<le> w div (b * b * b)"
    using assms \<open>0 < b * b * b\<close> by (simp add: pos_imp_zdiv_nonneg_iff)
  ultimately have top: "(w div (b * b * b)) mod b = w div (b * b * b)" by simp
  have 1: "w = b * (w div b) + w mod b" by simp
  have 2: "w div b = b * (w div b div b) + (w div b) mod b" by simp
  have 3: "w div b div b = b * (w div b div b div b) + (w div b div b) mod b" by simp
  show ?thesis
    unfolding top unfolding d2 d3
    by (rule combine_digits [OF 1 2 3])
qed

lemma pow64_2: "(2::int) ^ 64 * 2 ^ 64 = 2 ^ 128"
  by (simp only: power_add [symmetric]) simp

lemma pow64_3: "(2::int) ^ 128 * 2 ^ 64 = 2 ^ 192"
  by (simp only: power_add [symmetric]) simp

lemma pow64_4: "(2::int) ^ 64 * 2 ^ 192 = 2 ^ 256"
  by (simp only: power_add [symmetric]) simp

lemma pow64_pos: "(0::int) < 2 ^ 64"
  by simp

lemma recombine:
  assumes "0 \<le> (w::int)" "w < 2 ^ 256"
  shows "w mod 2 ^ 64 + 2 ^ 64 * ((w div 2 ^ 64) mod 2 ^ 64) + 2 ^ 128 * ((w div 2 ^ 128) mod 2 ^ 64)
      + 2 ^ 192 * ((w div 2 ^ 192) mod 2 ^ 64) = w"
proof -
  have "w < 2 ^ 64 * (2 ^ 64 * 2 ^ 64 * 2 ^ 64)" using assms(2) by (simp only: pow64_2 pow64_3 pow64_4)
  from digits4 [OF pow64_pos assms(1) this] show ?thesis by (simp only: pow64_2 pow64_3)
qed

lemma urnd_completed_ok:
  "urnd_completed (Some w, False, a, b) s =
     Inr (called (SetSeed [w mod 2 ^ 64, (w div 2 ^ 64) mod 2 ^ 64, (w div 2 ^ 128) mod 2 ^ 64,
            (w div 2 ^ 192) mod 2 ^ 64])
       (wsrs_update (URND_update (record_write [w mod 2 ^ 64, (w div 2 ^ 64) mod 2 ^ 64,
            (w div 2 ^ 128) mod 2 ^ 64, (w div 2 ^ 192) mod 2 ^ 64]))
          ((called UrndCdcComplete s)\<lparr>edn_seen_running := True\<rparr>)))"
  unfolding urnd_completed_def Let_def w64s_eq by simp

text \<open>C9: \<open>urnd_completed\<close> fails its assertion when the completion of the URND
  client reports no value, or reports that a retry is needed. Otherwise it returns,
  stages as the URND seed the four 64-bit quarter-words of the completion word, least
  significant first, and sets \<open>edn_seen_running\<close>. For a 256-bit word the four
  quarter-words are its base-\<open>2^64\<close> digits: they add up to the word again.\<close>

theorem urnd_completed_splits_seed:
  "urnd_completed (None, retry, a, b) s = Inl AssertionError \<and>
   urnd_completed (Some w, True, a, b) s = Inl AssertionError \<and>
   (\<exists>s'. urnd_completed (Some w, False, a, b) s = Inr s' \<and>
      pending (URND (wsrs s')) = Some [w mod 2 ^ 64, (w div 2 ^ 64) mod 2 ^ 64,
          (w div 2 ^ 128) mod 2 ^ 64, (w div 2 ^ 192) mod 2 ^ 64] \<and>
      edn_seen_running s') \<and>
   (0 \<le> w \<and> w < 2 ^ 256 \<longrightarrow>
      w mod 2 ^ 64 + 2 ^ 64 * ((w div 2 ^ 64) mod 2 ^ 64) + 2 ^ 128 * ((w div 2 ^ 128) mod 2 ^ 64)
      + 2 ^ 192 * ((w div 2 ^ 192) mod 2 ^ 64) = w)"
proof -
  have 1: "urnd_completed (None, retry, a, b) s = Inl AssertionError"
    by (simp add: urnd_completed_def)
  have 2: "urnd_completed (Some w, True, a, b) s = Inl AssertionError"
    by (simp add: urnd_completed_def)
  have 3: "\<exists>s'. urnd_completed (Some w, False, a, b) s = Inr s' \<and>
      pending (URND (wsrs s')) = Some [w mod 2 ^ 64, (w div 2 ^ 64) mod 2 ^ 64,
          (w div 2 ^ 128) mod 2 ^ 64, (w div 2 ^ 192) mod 2 ^ 64] \<and>
      edn_seen_running s'"
    unfolding urnd_completed_ok by (simp add: called_def record_write_def)
  from 1 2 3 recombine [of w] show ?thesis by blast
qed

theorem urnd_completed_splits_seed_witness:
  "observe (URND (wsrs (projr (urnd_completed (Some 18446744073709551621, False, False, False)
      (init example_collab))))) = [5, 1, 0, 0] \<and>
   edn_seen_running (projr (urnd_completed (Some 18446744073709551621, False, False, False)
      (init example_collab))) \<and>
   urnd_completed (None, False, False, False) (init example_collab) = Inl AssertionError"
  using urnd_completed_splits_seed [of False False False "init example_collab" 18446744073709551621]
  by (auto simp add: observe_def)

end
